theory Spec2Isabelle
  imports Main
begin

section \<open>The exploration control loop of cam_exploration.cpp\<close>

text \<open>
  The file holds three globals (\<open>robot\<close>, \<open>fmap\<close>, \<open>goal_selector\<close>), the functions
  \<open>decideGoal\<close>, \<open>getFrontiers\<close>, \<open>finish\<close> and \<open>spin\<close>, and \<open>main\<close>.
  The collaborators \<open>MapServer\<close>, \<open>RobotMotion\<close>, \<open>replan::Replaner\<close>,
  \<open>strategy::goalSelector\<close> and \<open>MarkerPublisher\<close> are declared in headers that are not
  part of the file. What they answer is an input of the model, and every call the loop
  makes to them is recorded as an event, in the order of the source.

  Frontiers \<open>'f\<close> and poses \<open>'g\<close> are opaque: the loop only passes them on.
\<close>

subsection \<open>Data\<close>

text \<open>
  The two ways in which \<open>decideGoal\<close> leaves defined behaviour: the iterator \<open>f_it\<close> is
  dereferenced at \<open>fmap.end()\<close> (the \<open>while\<close> of line 72 has no end test), or the
  global pointer \<open>goal_selector\<close> is still null when it is called through.
\<close>

datatype error = ScanPastEnd | NullSelector

text \<open>Calls to the collaborators, and the messages logged at warning or error level.\<close>

datatype ('f, 'g) event =
    EvSetMapReceived
  | EvRefreshPose
  | EvReplan
  | EvPrintStatus
  | EvDecideGoal
  | EvSelect 'f
  | EvPublishFrontier 'f
  | EvPublishGoal 'g
  | EvGoTo 'g
  | EvIsMoving
  | EvCancelGoal
  | EvShutdown
  | EvRosWarn string
  | EvRosError string

text \<open>
  \<open>goal_selector->decideGoal(*f_it, goal)\<close>: the selector reads a frontier, may write the
  pose passed by reference, returns whether it accepts, and may change its own state \<open>'s\<close>.
\<close>

type_synonym ('f, 'g, 's) selector = "'s \<Rightarrow> 'f \<Rightarrow> 'g \<Rightarrow> bool \<times> 'g \<times> 's"

text \<open>
  The variables of the loop: the globals \<open>fmap\<close> and \<open>goal_selector\<close> (\<open>None\<close> is the null
  pointer), the state of the selector object, the locals \<open>first_time\<close> and
  \<open>exploration_finished\<close> of \<open>spin\<close>, whether \<open>ros::shutdown()\<close> has been called (then
  \<open>ros::ok()\<close> is false), and whether the process has left defined behaviour.
\<close>

record ('f, 'g, 's) loop_state =
  fmap :: "'f list"
  goal_selector :: "('f, 'g, 's) selector option"
  selector_state :: 's
  first_time :: bool
  exploration_finished :: bool
  ros_shutdown :: bool
  crashed :: "error option"

text \<open>
  What the collaborators answer during one iteration of the \<open>while (ros::ok())\<close> loop:
  \<open>mapServer.mapReceived()\<close>, \<open>robot.isMoving()\<close>, \<open>robot.refreshPose()\<close>,
  \<open>replaner.replan()\<close>, and the frontier map that the callback \<open>getFrontiers\<close> receives
  while \<open>ros::spinOnce()\<close> runs at the end of the iteration, if any.
\<close>

record 'f tick_input =
  map_received :: bool
  is_moving :: bool
  refresh_ok :: bool
  replan_verdict :: bool
  map_update :: "'f list option"

subsection \<open>decideGoal (lines 68 to 80)\<close>

text \<open>
  The \<open>while\<close> loop of line 72, over the frontiers from the iterator on. At the end of the
  sequence the source dereferences the iterator all the same; the model stops there with
  \<open>ScanPastEnd\<close>. The result holds the accepted frontier and the pose, the state of the
  selector, and the frontiers the selector was called on.
\<close>

fun scan :: "('f, 'g, 's) selector \<Rightarrow> 's \<Rightarrow> 'f list \<Rightarrow> 'g
    \<Rightarrow> (error + 'f \<times> 'g) \<times> 's \<times> ('f, 'g) event list" where
  "scan sel s [] goal = (Inl ScanPastEnd, s, [])"
| "scan sel s (f # fs) goal =
     (case sel s f goal of
        (accepted, goal', s') \<Rightarrow>
          if accepted then (Inr (f, goal'), s', [EvSelect f])
          else (case scan sel s' fs goal' of
                  (r, s'', evs) \<Rightarrow> (r, s'', EvSelect f # evs)))"

text \<open>
  \<open>pose0\<close> is the default-constructed \<open>geometry_msgs::Pose goal\<close> of line 70. The two
  marker publications follow the scan.
\<close>

definition decideGoal :: "'g \<Rightarrow> ('f, 'g, 's) loop_state
    \<Rightarrow> (error + 'g) \<times> ('f, 'g, 's) loop_state \<times> ('f, 'g) event list" where
  "decideGoal pose0 st =
     (case goal_selector st of
        None \<Rightarrow> (Inl NullSelector, st, [EvDecideGoal])
      | Some sel \<Rightarrow>
          (case scan sel (selector_state st) (fmap st) pose0 of
             (Inl e, s', evs) \<Rightarrow> (Inl e, st\<lparr>selector_state := s'\<rparr>, EvDecideGoal # evs)
           | (Inr (f, goal), s', evs) \<Rightarrow>
               (Inr goal, st\<lparr>selector_state := s'\<rparr>,
                EvDecideGoal # evs @ [EvPublishFrontier f, EvPublishGoal goal])))"

subsection \<open>getFrontiers (lines 89 to 92) and finish (lines 98 to 104)\<close>

definition getFrontiers :: "'f list \<Rightarrow> ('f, 'g, 's) loop_state \<Rightarrow> ('f, 'g, 's) loop_state" where
  "getFrontiers f_in st = st\<lparr>fmap := f_in\<rparr>"

definition finish :: "('f, 'g, 's) loop_state \<Rightarrow> 'f tick_input
    \<Rightarrow> ('f, 'g, 's) loop_state \<times> ('f, 'g) event list" where
  "finish st i =
     (st\<lparr>ros_shutdown := True\<rparr>,
      EvIsMoving # (if is_moving i then [EvCancelGoal] else []) @ [EvShutdown])"

subsection \<open>spin (lines 110 to 219)\<close>

text \<open>
  Lines 122 to 146 (the two subscriptions and the registration of the replanning causes)
  and lines 165 to 178 (the markers) only call collaborators and do not touch the
  variables of the loop; they are left out, and so is logging at information level.
\<close>

text \<open>
  Lines 149 to 161: the selector is chosen by the parameter \<open>goal_selector/type\<close>
  (\<open>None\<close> when \<open>getParam\<close> finds none). \<open>midPoint\<close> is the one strategy the source
  constructs; its class is not in the file, so it is a parameter. Both error branches
  log and fall through to the rest of \<open>spin\<close> with the global pointer unassigned.
\<close>

definition select_goal_selector :: "('f, 'g, 's) selector \<Rightarrow> string option
    \<Rightarrow> ('f, 'g, 's) selector option \<times> ('f, 'g) event list" where
  "select_goal_selector midPoint param =
     (case param of
        Some g_selector_name \<Rightarrow>
          if g_selector_name = ''mid_point'' then (Some midPoint, [])
          else (None, [EvRosError (''String '' @ g_selector_name
                                   @ '' does not name a valid goal selector'')])
      | None \<Rightarrow> (None, [EvRosError ''Parameter goal_selector has not been configured'']))"

text \<open>
  Lines 187 to 214, the body of the loop before \<open>ros::spinOnce()\<close>. In
  \<open>replaner.replan() || first_time\<close> the policy is asked first, on every iteration that
  gets there. When \<open>decideGoal\<close> leaves defined behaviour the process is taken to stop
  there, before \<open>goTo\<close>.
\<close>

definition tick :: "'g \<Rightarrow> ('f, 'g, 's) loop_state \<Rightarrow> 'f tick_input
    \<Rightarrow> ('f, 'g, 's) loop_state \<times> ('f, 'g) event list" where
  "tick pose0 st i =
     (if map_received i then
        (if exploration_finished st then
           (case finish st i of (st', evs) \<Rightarrow> (st', EvSetMapReceived # evs))
         else if refresh_ok i then
           (if replan_verdict i \<or> first_time st then
              (case decideGoal pose0 (st\<lparr>first_time := False\<rparr>) of
                 (Inl e, st', evs) \<Rightarrow>
                   (st'\<lparr>crashed := Some e\<rparr>,
                    [EvSetMapReceived, EvRefreshPose, EvReplan, EvPrintStatus] @ evs)
               | (Inr goal, st', evs) \<Rightarrow>
                   (st', [EvSetMapReceived, EvRefreshPose, EvReplan, EvPrintStatus]
                         @ evs @ [EvGoTo goal]))
            else (st, [EvSetMapReceived, EvRefreshPose, EvReplan]))
         else (st, [EvSetMapReceived, EvRefreshPose,
                    EvRosWarn ''Couldn't get robot position!'']))
      else (st, []))"

text \<open>Line 216: the callbacks that are due run; the only one of this file is \<open>getFrontiers\<close>.\<close>

definition spinOnce :: "('f, 'g, 's) loop_state \<Rightarrow> 'f tick_input \<Rightarrow> ('f, 'g, 's) loop_state" where
  "spinOnce st i = (case map_update i of None \<Rightarrow> st | Some f_in \<Rightarrow> getFrontiers f_in st)"

text \<open>
  The loop of lines 185 to 218 over the inputs of the iterations that the environment
  lets happen: an outside stop of the node ends the list. The loop also ends when
  \<open>ros::shutdown()\<close> has been called, or when the process has stopped. The result is the
  last state and the events of each iteration that ran, one list per iteration.
\<close>

fun run :: "'g \<Rightarrow> ('f, 'g, 's) loop_state \<Rightarrow> 'f tick_input list
    \<Rightarrow> ('f, 'g, 's) loop_state \<times> ('f, 'g) event list list" where
  "run pose0 st [] = (st, [])"
| "run pose0 st (i # ins) =
     (if ros_shutdown st \<or> crashed st \<noteq> None then (st, [])
      else (case tick pose0 st i of
              (st1, evs) \<Rightarrow>
                if crashed st1 \<noteq> None then (st1, [evs])
                else (case run pose0 (spinOnce st1 i) ins of
                        (st2, evss) \<Rightarrow> (st2, evs # evss))))"

text \<open>
  \<open>spin\<close> from its start: \<open>fmap\<close> is the empty global, the selector is chosen, the two
  flags get their initial values of lines 183 and 184, then the loop runs. \<open>s0\<close> is the
  state of a selector object when constructed.
\<close>

definition init_state :: "('f, 'g, 's) selector option \<Rightarrow> 's \<Rightarrow> ('f, 'g, 's) loop_state" where
  "init_state gs s0 =
     \<lparr>fmap = [], goal_selector = gs, selector_state = s0, first_time = True,
      exploration_finished = False, ros_shutdown = False, crashed = None\<rparr>"

definition spin :: "('f, 'g, 's) selector \<Rightarrow> 's \<Rightarrow> 'g \<Rightarrow> string option \<Rightarrow> 'f tick_input list
    \<Rightarrow> ('f, 'g, 's) loop_state \<times> ('f, 'g) event list \<times> ('f, 'g) event list list" where
  "spin midPoint s0 pose0 param ins =
     (case select_goal_selector midPoint param of
        (gs, evs0) \<Rightarrow>
          (case run pose0 (init_state gs s0) ins of
             (st, evss) \<Rightarrow> (st, evs0, evss)))"

subsection \<open>Reading a trace\<close>

fun is_goTo :: "('f, 'g) event \<Rightarrow> bool" where
  "is_goTo (EvGoTo g) = True"
| "is_goTo _ = False"

fun is_cancel :: "('f, 'g) event \<Rightarrow> bool" where
  "is_cancel EvCancelGoal = True"
| "is_cancel _ = False"

fun is_refresh :: "('f, 'g) event \<Rightarrow> bool" where
  "is_refresh EvRefreshPose = True"
| "is_refresh _ = False"

fun is_rosError :: "('f, 'g) event \<Rightarrow> bool" where
  "is_rosError (EvRosError m) = True"
| "is_rosError _ = False"

text \<open>
  The selector declines every frontier of a list, one after the other: the pose variable
  and the selector state after the last call, or \<open>None\<close> when one of them is accepted.
\<close>

fun declines_all :: "('f, 'g, 's) selector \<Rightarrow> 's \<Rightarrow> 'g \<Rightarrow> 'f list \<Rightarrow> ('g \<times> 's) option" where
  "declines_all sel s goal [] = Some (goal, s)"
| "declines_all sel s goal (f # fs) =
     (case sel s f goal of
        (accepted, goal', s') \<Rightarrow> if accepted then None else declines_all sel s' goal' fs)"

subsection \<open>Concrete inputs\<close>

text \<open>
  A selector over frontiers and poses that are numbers: it accepts the frontier 2 alone,
  and writes the pose only when it accepts. Then a state with three frontiers, and the
  answers of four kinds of iteration: no map yet; map and pose, no replanning verdict;
  map, pose refresh failed; map, pose and a replanning verdict.
\<close>

definition accept_two :: "(nat, nat, unit) selector" where
  "accept_two s f goal = (f = 2, (if f = 2 then 10 * f else goal), s)"

definition three_frontiers :: "(nat, nat, unit) loop_state" where
  "three_frontiers = (init_state (Some accept_two) ())\<lparr>fmap := [1, 2, 3]\<rparr>"

definition waiting_tick :: "nat tick_input" where
  "waiting_tick = \<lparr>map_received = False, is_moving = False, refresh_ok = False,
     replan_verdict = False, map_update = None\<rparr>"

definition pose_ok_tick :: "nat tick_input" where
  "pose_ok_tick = \<lparr>map_received = True, is_moving = True, refresh_ok = True,
     replan_verdict = False, map_update = None\<rparr>"

definition pose_failed_tick :: "nat tick_input" where
  "pose_failed_tick = \<lparr>map_received = True, is_moving = True, refresh_ok = False,
     replan_verdict = True, map_update = None\<rparr>"

definition replan_tick :: "nat tick_input" where
  "replan_tick = \<lparr>map_received = True, is_moving = True, refresh_ok = True,
     replan_verdict = True, map_update = None\<rparr>"

lemmas fixtures = accept_two_def three_frontiers_def waiting_tick_def pose_ok_tick_def
  pose_failed_tick_def replan_tick_def init_state_def

lemmas model_defs = tick_def decideGoal_def finish_def spinOnce_def getFrontiers_def

section \<open>Properties\<close>

subsection \<open>The scan\<close>

lemma scan_declines_all:
  "declines_all sel s goal fs = Some (goal', s')
   \<Longrightarrow> scan sel s fs goal = (Inl ScanPastEnd, s', map EvSelect fs)"
  by (induction fs arbitrary: s goal) (auto split: prod.splits if_splits)

lemma scan_first_accepted:
  "declines_all sel s goal pre = Some (g1, s1) \<Longrightarrow> sel s1 f g1 = (True, g2, s2)
   \<Longrightarrow> scan sel s (pre @ f # post) goal = (Inr (f, g2), s2, map EvSelect (pre @ [f]))"
  by (induction pre arbitrary: s goal) (auto split: prod.splits if_splits)

lemma scan_events:
  "scan sel s fs goal = (r, s', evs) \<Longrightarrow> \<exists>n. evs = map EvSelect (take n fs)"
proof (induction fs arbitrary: s goal r s' evs)
  case Nil
  then show ?case by simp
next
  case (Cons f fs)
  obtain a g1 s1 where c: "sel s f goal = (a, g1, s1)" by (cases "sel s f goal") auto
  show ?case
  proof (cases a)
    case True
    with Cons.prems c have "evs = map EvSelect (take 1 (f # fs))" by simp
    then show ?thesis by blast
  next
    case False
    obtain r2 s2 evs2 where d: "scan sel s1 fs g1 = (r2, s2, evs2)"
      by (cases "scan sel s1 fs g1") auto
    from Cons.IH [OF d] obtain n where "evs2 = map EvSelect (take n fs)" by blast
    with Cons.prems c d False have "evs = map EvSelect (take (Suc n) (f # fs))" by simp
    then show ?thesis by blast
  qed
qed

lemma decideGoal_events:
  "decideGoal pose0 st = (r, st', evs) \<Longrightarrow>
     filter is_refresh evs = [] \<and> filter is_cancel evs = [] \<and> filter is_goTo evs = []"
  by (auto simp: decideGoal_def filter_empty_conv
      split: option.splits prod.splits sum.splits dest!: scan_events)

lemma decideGoal_frame:
  "decideGoal pose0 st = (r, st', evs) \<Longrightarrow>
     fmap st' = fmap st \<and> goal_selector st' = goal_selector st \<and> first_time st' = first_time st
     \<and> exploration_finished st' = exploration_finished st \<and> ros_shutdown st' = ros_shutdown st
     \<and> crashed st' = crashed st"
  by (auto simp: decideGoal_def split: option.splits prod.splits sum.splits)

lemma decideGoal_marker:
  "decideGoal pose0 st = (r, st', evs) \<Longrightarrow> EvDecideGoal \<in> set evs"
  by (auto simp: decideGoal_def split: option.splits prod.splits sum.splits)

lemma decideGoal_all_declined:
  "goal_selector st = Some sel \<Longrightarrow>
   declines_all sel (selector_state st) pose0 (fmap st) = Some (goal', s') \<Longrightarrow>
     decideGoal pose0 st = (Inl ScanPastEnd, st\<lparr>selector_state := s'\<rparr>,
                            EvDecideGoal # map EvSelect (fmap st))"
  by (simp add: decideGoal_def scan_declines_all)

text \<open>
  C1. The frontier set is empty when the first iteration with a map and a pose forces
  the scan: \<open>decideGoal\<close> does not come back with "no accepted goal". The iterator
  starts at \<open>fmap.end()\<close> and is dereferenced there, and the process stops in the scan,
  before \<open>goTo\<close>. By \<open>decideGoal_all_declined\<close> the same happens for every frontier set
  whose frontiers are all declined.
\<close>

theorem empty_frontier_set_scan_past_end:
  "spin accept_two () 0 (Some ''mid_point'')
     [waiting_tick\<lparr>map_update := Some []\<rparr>, pose_ok_tick]
   = ((init_state (Some accept_two) ())\<lparr>first_time := False, crashed := Some ScanPastEnd\<rparr>,
      [],
      [[], [EvSetMapReceived, EvRefreshPose, EvReplan, EvPrintStatus, EvDecideGoal]])"
  by (simp add: spin_def select_goal_selector_def tick_def decideGoal_def spinOnce_def
      getFrontiers_def fixtures)

text \<open>
  C6. When the selector declines the frontiers of \<open>pre\<close> one after the other and accepts
  the next frontier \<open>f\<close>, \<open>decideGoal\<close> returns the pose written by the call on \<open>f\<close>,
  publishes \<open>f\<close> and that pose, and has called the selector on \<open>pre\<close> and \<open>f\<close> in this
  order and on no frontier of \<open>post\<close>.
\<close>

theorem decideGoal_first_accepted:
  assumes "goal_selector st = Some sel" and "fmap st = pre @ f # post"
    and "declines_all sel (selector_state st) pose0 pre = Some (g1, s1)"
    and "sel s1 f g1 = (True, g2, s2)"
  shows "decideGoal pose0 st =
           (Inr g2, st\<lparr>selector_state := s2\<rparr>,
            EvDecideGoal # map EvSelect (pre @ [f]) @ [EvPublishFrontier f, EvPublishGoal g2])"
  using assms scan_first_accepted [of sel "selector_state st" pose0 pre g1 s1 f g2 s2 post]
  by (simp add: decideGoal_def)

theorem decideGoal_first_accepted_witness:
  "goal_selector three_frontiers = Some accept_two
   \<and> fmap three_frontiers = [1] @ 2 # [3]
   \<and> declines_all accept_two (selector_state three_frontiers) 0 [1] = Some (0, ())
   \<and> accept_two () 2 0 = (True, 20, ())
   \<and> decideGoal 0 three_frontiers =
       (Inr 20, three_frontiers,
        [EvDecideGoal, EvSelect 1, EvSelect 2, EvPublishFrontier 2, EvPublishGoal 20])"
proof -
  have h1: "goal_selector three_frontiers = Some accept_two" by (simp add: fixtures)
  have h2: "fmap three_frontiers = [1] @ 2 # [3]" by (simp add: fixtures)
  have h3: "declines_all accept_two (selector_state three_frontiers) 0 [1] = Some (0, ())"
    by (simp add: fixtures)
  have h4: "accept_two () 2 0 = (True, 20, ())" by (simp add: fixtures)
  from decideGoal_first_accepted [OF h1 h2 h3 h4] h1 h2 h3 h4 show ?thesis by simp
qed

text \<open>
  C8. The accepted goal of a scan depends on the frontier set, the selector and the state
  of the selector only: a second scan that finds these three as the first one found them
  returns the same pose, after the same calls.
\<close>

theorem decideGoal_same_inputs_same_goal:
  assumes "decideGoal pose0 st1 = (Inr goal, st1', evs)"
    and "fmap st2 = fmap st1" and "goal_selector st2 = goal_selector st1"
    and "selector_state st2 = selector_state st1"
  shows "fst (decideGoal pose0 st2) = Inr goal \<and> snd (snd (decideGoal pose0 st2)) = evs"
  using assms by (auto simp: decideGoal_def split: option.splits prod.splits sum.splits)

theorem decideGoal_same_inputs_same_goal_witness:
  "decideGoal 0 three_frontiers =
     (Inr 20, three_frontiers,
      [EvDecideGoal, EvSelect 1, EvSelect 2, EvPublishFrontier 2, EvPublishGoal 20])
   \<and> fmap (three_frontiers\<lparr>first_time := False\<rparr>) = fmap three_frontiers
   \<and> goal_selector (three_frontiers\<lparr>first_time := False\<rparr>) = goal_selector three_frontiers
   \<and> selector_state (three_frontiers\<lparr>first_time := False\<rparr>) = selector_state three_frontiers
   \<and> fst (decideGoal 0 (three_frontiers\<lparr>first_time := False\<rparr>)) = Inr 20
   \<and> snd (snd (decideGoal 0 (three_frontiers\<lparr>first_time := False\<rparr>)))
       = [EvDecideGoal, EvSelect 1, EvSelect 2, EvPublishFrontier 2, EvPublishGoal 20]"
proof -
  have h1: "decideGoal 0 three_frontiers =
     (Inr 20, three_frontiers,
      [EvDecideGoal, EvSelect 1, EvSelect 2, EvPublishFrontier 2, EvPublishGoal 20])"
    by (simp add: decideGoal_def fixtures)
  have h2: "fmap (three_frontiers\<lparr>first_time := False\<rparr>) = fmap three_frontiers" by simp
  have h3: "goal_selector (three_frontiers\<lparr>first_time := False\<rparr>) = goal_selector three_frontiers"
    by simp
  have h4: "selector_state (three_frontiers\<lparr>first_time := False\<rparr>) = selector_state three_frontiers"
    by simp
  from decideGoal_same_inputs_same_goal [OF h1 h2 h3 h4] h1 show ?thesis by simp
qed

subsection \<open>One iteration\<close>

lemma tick_no_map: "\<not> map_received i \<Longrightarrow> tick pose0 st i = (st, [])"
  by (simp add: tick_def)

lemma tick_finished:
  "exploration_finished st \<Longrightarrow> map_received i \<Longrightarrow>
     tick pose0 st i = (st\<lparr>ros_shutdown := True\<rparr>,
       EvSetMapReceived # EvIsMoving # (if is_moving i then [EvCancelGoal] else []) @ [EvShutdown])"
  by (simp add: tick_def finish_def)

lemma tick_idle:
  "\<not> (map_received i \<and> refresh_ok i) \<Longrightarrow> \<not> exploration_finished st \<Longrightarrow>
     fst (tick pose0 st i) = st \<and> length (filter is_goTo (snd (tick pose0 st i))) = 0"
  by (auto simp: tick_def)

lemma tick_first_time_kept:
  "\<not> (map_received i \<and> refresh_ok i) \<Longrightarrow> first_time (fst (tick pose0 st i)) = first_time st"
  by (auto simp: tick_def finish_def)

lemma spinOnce_frame:
  "first_time (spinOnce st i) = first_time st
   \<and> exploration_finished (spinOnce st i) = exploration_finished st
   \<and> ros_shutdown (spinOnce st i) = ros_shutdown st
   \<and> crashed (spinOnce st i) = crashed st
   \<and> goal_selector (spinOnce st i) = goal_selector st
   \<and> selector_state (spinOnce st i) = selector_state st"
  by (simp add: spinOnce_def getFrontiers_def split: option.splits)

lemma tick_first_time_cleared:
  "first_time st \<Longrightarrow> \<not> first_time (fst (tick pose0 st i)) \<Longrightarrow>
     map_received i \<and> refresh_ok i \<and> \<not> exploration_finished st
     \<and> EvDecideGoal \<in> set (snd (tick pose0 st i))"
  by (auto simp: tick_def finish_def split: if_splits prod.splits sum.splits
      dest: decideGoal_marker decideGoal_frame)

lemma tick_first_time_stays_cleared:
  "\<not> first_time st \<Longrightarrow> \<not> first_time (fst (tick pose0 st i))"
  by (auto simp: tick_def finish_def split: if_splits prod.splits sum.splits
      dest: decideGoal_frame)

lemma tick_goTo_needs_verdict:
  "filter is_goTo (snd (tick pose0 st i)) \<noteq> [] \<Longrightarrow>
     \<not> first_time (fst (tick pose0 st i)) \<and> (first_time st \<or> replan_verdict i)"
  by (auto simp: tick_def finish_def split: if_splits prod.splits sum.splits
      dest: decideGoal_events decideGoal_frame)

lemma tick_scan_when_first:
  "first_time st \<Longrightarrow> \<not> exploration_finished st \<Longrightarrow> map_received i \<Longrightarrow> refresh_ok i \<Longrightarrow>
     EvDecideGoal \<in> set (snd (tick pose0 st i))"
  by (auto simp: tick_def split: prod.splits sum.splits dest: decideGoal_marker)

lemma tick_scan_calls_selector:
  "first_time st \<Longrightarrow> \<not> exploration_finished st \<Longrightarrow> map_received i \<Longrightarrow> refresh_ok i \<Longrightarrow>
   goal_selector st = Some sel \<Longrightarrow> fmap st = f # fs \<Longrightarrow>
     EvSelect f \<in> set (snd (tick pose0 st i))"
  by (auto simp: tick_def decideGoal_def split: prod.splits sum.splits)

lemma tick_dispatches_decided_goal:
  "map_received i \<Longrightarrow> \<not> exploration_finished st \<Longrightarrow> refresh_ok i \<Longrightarrow>
   replan_verdict i \<or> first_time st \<Longrightarrow>
   decideGoal pose0 (st\<lparr>first_time := False\<rparr>) = (Inr goal, st', evs) \<Longrightarrow>
     tick pose0 st i =
       (st', [EvSetMapReceived, EvRefreshPose, EvReplan, EvPrintStatus] @ evs @ [EvGoTo goal])"
  by (simp add: tick_def)

text \<open>
  C2. \<open>robot.refreshPose()\<close> (line 198) is behind the test of
  \<open>mapServer.mapReceived()\<close> (line 187). In an iteration where that answers true and
  \<open>exploration_finished\<close> is false, the pose is refreshed exactly once, right after
  \<open>setMapReceived()\<close>, whatever the other answers of the iteration are. In an iteration
  where it answers false nothing is called and nothing changes; in the branch of \<open>finish\<close>
  the pose is not refreshed either.
\<close>

theorem refresh_gated_by_map_received:
  "(map_received i \<and> \<not> exploration_finished st \<longrightarrow>
      (\<exists>rest. snd (tick pose0 st i) = EvSetMapReceived # EvRefreshPose # rest
         \<and> filter is_refresh rest = []))
   \<and> (\<not> map_received i \<longrightarrow> tick pose0 st i = (st, []))
   \<and> (exploration_finished st \<longrightarrow> filter is_refresh (snd (tick pose0 st i)) = [])"
  by (auto simp: tick_def finish_def split: prod.splits sum.splits dest: decideGoal_events)

theorem refresh_gated_by_map_received_witness:
  "map_received pose_ok_tick \<and> exploration_finished three_frontiers = False
   \<and> snd (tick 0 three_frontiers pose_ok_tick)
       = [EvSetMapReceived, EvRefreshPose, EvReplan, EvPrintStatus, EvDecideGoal, EvSelect 1,
          EvSelect 2, EvPublishFrontier 2, EvPublishGoal 20, EvGoTo 20]
   \<and> map_received waiting_tick = False
   \<and> tick 0 three_frontiers waiting_tick = (three_frontiers, [])
   \<and> exploration_finished (three_frontiers\<lparr>exploration_finished := True\<rparr>)
   \<and> filter is_refresh
         (snd (tick 0 (three_frontiers\<lparr>exploration_finished := True\<rparr>) pose_ok_tick)) = []"
proof -
  have h1: "map_received pose_ok_tick \<and> exploration_finished three_frontiers = False"
    by (simp add: fixtures)
  have h2: "map_received waiting_tick = False" by (simp add: fixtures)
  have h3: "exploration_finished (three_frontiers\<lparr>exploration_finished := True\<rparr>)" by simp
  have e: "snd (tick 0 three_frontiers pose_ok_tick)
       = [EvSetMapReceived, EvRefreshPose, EvReplan, EvPrintStatus, EvDecideGoal, EvSelect 1,
          EvSelect 2, EvPublishFrontier 2, EvPublishGoal 20, EvGoTo 20]"
    by (simp add: model_defs fixtures)
  from refresh_gated_by_map_received [of waiting_tick three_frontiers 0] h2
  have c2: "tick 0 three_frontiers waiting_tick = (three_frontiers, [])" by simp
  from refresh_gated_by_map_received
         [of pose_ok_tick "three_frontiers\<lparr>exploration_finished := True\<rparr>" 0] h3
  have c3: "filter is_refresh
         (snd (tick 0 (three_frontiers\<lparr>exploration_finished := True\<rparr>) pose_ok_tick)) = []"
    by blast
  from h1 h2 h3 e c2 c3 show ?thesis by blast
qed

text \<open>
  A run of \<open>spin\<close> in which the second iteration has the map and the pose and sends a
  goal, and the third iteration, with exploration under way, gets the answer false from
  \<open>mapReceived()\<close>: it calls nothing, so the pose is not refreshed in it.
\<close>

theorem exploring_tick_without_map_no_refresh:
  "spin accept_two () 0 (Some ''mid_point'')
     [waiting_tick\<lparr>map_update := Some [1, 2, 3]\<rparr>, pose_ok_tick, waiting_tick]
   = ((init_state (Some accept_two) ())\<lparr>fmap := [1, 2, 3], first_time := False\<rparr>,
      [],
      [[],
       [EvSetMapReceived, EvRefreshPose, EvReplan, EvPrintStatus, EvDecideGoal, EvSelect 1,
        EvSelect 2, EvPublishFrontier 2, EvPublishGoal 20, EvGoTo 20],
       []])"
  by (simp add: spin_def select_goal_selector_def model_defs fixtures)

text \<open>
  C7. In such an iteration, when the pose refresh fails, the body of the loop leaves
  \<open>fmap\<close>, the selector, \<open>first_time\<close>, \<open>exploration_finished\<close> and every other variable
  as they were, and calls no \<open>goTo\<close>.
\<close>

theorem tick_pose_failure_frame:
  assumes "map_received i" and "\<not> exploration_finished st" and "\<not> refresh_ok i"
  shows "fst (tick pose0 st i) = st \<and> filter is_goTo (snd (tick pose0 st i)) = []"
  using assms by (simp add: tick_def)

theorem tick_pose_failure_frame_witness:
  "map_received pose_failed_tick \<and> \<not> exploration_finished three_frontiers
   \<and> \<not> refresh_ok pose_failed_tick
   \<and> fst (tick 0 three_frontiers pose_failed_tick) = three_frontiers
   \<and> filter is_goTo (snd (tick 0 three_frontiers pose_failed_tick)) = []"
proof -
  have h1: "map_received pose_failed_tick" by (simp add: fixtures)
  have h2: "\<not> exploration_finished three_frontiers" by (simp add: fixtures)
  have h3: "\<not> refresh_ok pose_failed_tick" by (simp add: fixtures)
  from tick_pose_failure_frame [OF h1 h2 h3, of 0] h1 h2 h3 show ?thesis by simp
qed

subsection \<open>The loop\<close>

lemma run_stopped: "ros_shutdown st \<Longrightarrow> run pose0 st ins = (st, [])"
  by (cases ins) auto

lemma run_first_time_kept:
  "\<forall>j\<in>set ins. \<not> (map_received j \<and> refresh_ok j) \<Longrightarrow>
     first_time (fst (run pose0 st ins)) = first_time st"
proof (induction ins arbitrary: st)
  case Nil
  then show ?case by simp
next
  case (Cons i ins)
  have k: "first_time (fst (tick pose0 st i)) = first_time st"
    using Cons.prems by (simp add: tick_first_time_kept)
  have "first_time (fst (run pose0 (spinOnce (fst (tick pose0 st i)) i) ins)) = first_time st"
    using Cons.IH [of "spinOnce (fst (tick pose0 st i)) i"] Cons.prems k
    by (simp add: spinOnce_frame)
  with k show ?case
    by (auto split: prod.splits)
qed

lemma run_after_bootstrap:
  "\<not> first_time st \<Longrightarrow> k < length (snd (run pose0 st ins)) \<Longrightarrow>
     filter is_goTo (snd (run pose0 st ins) ! k) \<noteq> [] \<Longrightarrow> replan_verdict (ins ! k)"
proof (induction ins arbitrary: st k)
  case Nil
  then show ?case by simp
next
  case (Cons i ins)
  obtain st1 evs where t: "tick pose0 st i = (st1, evs)" by (cases "tick pose0 st i") auto
  from Cons.prems(2) have alive: "\<not> ros_shutdown st" "crashed st = None"
    by (auto split: if_splits)
  have c1: "\<not> first_time st1"
    using tick_first_time_stays_cleared [OF Cons.prems(1), of pose0 i] t by simp
  show ?case
  proof (cases k)
    case 0
    with Cons.prems alive t have "filter is_goTo evs \<noteq> []"
      by (auto split: if_splits prod.splits)
    with tick_goTo_needs_verdict [of pose0 st i] t Cons.prems(1) 0 show ?thesis by simp
  next
    case (Suc k')
    with Cons.prems alive t have nc: "crashed st1 = None"
      by (auto split: if_splits prod.splits)
    obtain st2 evss where r: "run pose0 (spinOnce st1 i) ins = (st2, evss)"
      by (cases "run pose0 (spinOnce st1 i) ins") auto
    from alive t nc r have e: "snd (run pose0 st (i # ins)) = evs # evss" by simp
    have "replan_verdict (ins ! k')"
    proof (rule Cons.IH [of "spinOnce st1 i" k'])
      show "\<not> first_time (spinOnce st1 i)" using c1 by (simp add: spinOnce_frame)
      show "k' < length (snd (run pose0 (spinOnce st1 i) ins))"
        using Cons.prems(2) e r Suc by simp
      show "filter is_goTo (snd (run pose0 (spinOnce st1 i) ins) ! k') \<noteq> []"
        using Cons.prems(3) e r Suc by simp
    qed
    with Suc show ?thesis by simp
  qed
qed

lemma exploration_finished_never_set:
  "\<not> exploration_finished st \<Longrightarrow> \<not> exploration_finished (fst (run pose0 st ins))"
proof (induction ins arbitrary: st)
  case Nil
  then show ?case by simp
next
  case (Cons i ins)
  have "\<not> exploration_finished (fst (tick pose0 st i))"
    using Cons.prems
    by (auto simp: tick_def split: if_splits prod.splits sum.splits dest: decideGoal_frame)
  then have "\<not> exploration_finished (fst (run pose0 (spinOnce (fst (tick pose0 st i)) i) ins))"
    by (intro Cons.IH) (simp add: spinOnce_frame)
  with Cons.prems \<open>\<not> exploration_finished (fst (tick pose0 st i))\<close> show ?case
    by (auto split: prod.splits)
qed

text \<open>
  C3. The parameter \<open>goal_selector/type\<close> is \<open>nearest\<close>: the error is logged, and
  \<open>spin\<close> goes on into the loop with \<open>goal_selector\<close> null. Two iterations run; the
  second one forces the scan and calls through the null pointer.
\<close>

theorem unknown_selector_enters_loop:
  "spin accept_two () 0 (Some ''nearest'')
     [waiting_tick\<lparr>map_update := Some [1, 2, 3]\<rparr>, pose_ok_tick]
   = ((init_state None ())\<lparr>fmap := [1, 2, 3], first_time := False,
                             crashed := Some NullSelector\<rparr>,
      [EvRosError ''String nearest does not name a valid goal selector''],
      [[], [EvSetMapReceived, EvRefreshPose, EvReplan, EvPrintStatus, EvDecideGoal]])"
  by (simp add: spin_def select_goal_selector_def tick_def decideGoal_def spinOnce_def
      getFrontiers_def fixtures)

text \<open>
  The branch of line 195 from a state in which \<open>exploration_finished\<close> were true: no
  iteration calls \<open>goTo\<close>; \<open>finish\<close> runs in the first iteration in which
  \<open>mapReceived()\<close> answers true, and calls \<open>cancelGoal\<close> when \<open>isMoving()\<close> answers true
  in that iteration. No run of \<open>spin\<close> gets there, as the next lemmas show: line 184 is
  the only assignment to the flag.
\<close>

lemma finish_branch_if_reached:
  assumes "exploration_finished st" and "\<not> ros_shutdown st" and "crashed st = None"
  shows "filter is_goTo (concat (snd (run pose0 st ins))) = []
       \<and> length (filter is_cancel (concat (snd (run pose0 st ins))))
           = (case find map_received ins of
                None \<Rightarrow> 0
              | Some i \<Rightarrow> if is_moving i then 1 else 0)"
  using assms
proof (induction ins arbitrary: st)
  case Nil
  then show ?case by simp
next
  case (Cons i ins)
  show ?case
  proof (cases "map_received i")
    case True
    have "snd (run pose0 st (i # ins)) =
        [EvSetMapReceived # EvIsMoving # (if is_moving i then [EvCancelGoal] else []) @ [EvShutdown]]"
      using Cons.prems True
      by (simp add: tick_finished run_stopped spinOnce_frame)
    with True show ?thesis by simp
  next
    case False
    have "run pose0 st (i # ins) =
        (fst (run pose0 (spinOnce st i) ins), [] # snd (run pose0 (spinOnce st i) ins))"
      using Cons.prems False by (simp add: tick_no_map split: prod.splits)
    moreover have "filter is_goTo (concat (snd (run pose0 (spinOnce st i) ins))) = []
       \<and> length (filter is_cancel (concat (snd (run pose0 (spinOnce st i) ins))))
           = (case find map_received ins of
                None \<Rightarrow> 0
              | Some i \<Rightarrow> if is_moving i then 1 else 0)"
      using Cons.prems by (intro Cons.IH) (simp_all add: spinOnce_frame)
    ultimately show ?thesis using False by simp
  qed
qed

lemma tick_never_finishes:
  "\<not> exploration_finished st \<Longrightarrow>
     \<not> exploration_finished (fst (tick pose0 st i))
     \<and> ros_shutdown (fst (tick pose0 st i)) = ros_shutdown st
     \<and> filter is_cancel (snd (tick pose0 st i)) = []"
  by (auto simp: tick_def split: prod.splits sum.splits dest: decideGoal_events decideGoal_frame)

lemma run_never_finishes:
  "\<not> exploration_finished st \<Longrightarrow> \<not> ros_shutdown st \<Longrightarrow>
     \<not> exploration_finished (fst (run pose0 st ins))
     \<and> \<not> ros_shutdown (fst (run pose0 st ins))
     \<and> filter is_cancel (concat (snd (run pose0 st ins))) = []"
proof (induction ins arbitrary: st)
  case Nil
  then show ?case by simp
next
  case (Cons i ins)
  note t = tick_never_finishes [OF Cons.prems(1), of pose0 i]
  have ih: "\<not> exploration_finished (fst (run pose0 (spinOnce (fst (tick pose0 st i)) i) ins))
     \<and> \<not> ros_shutdown (fst (run pose0 (spinOnce (fst (tick pose0 st i)) i) ins))
     \<and> filter is_cancel (concat (snd (run pose0 (spinOnce (fst (tick pose0 st i)) i) ins))) = []"
    using t Cons.prems by (intro Cons.IH) (simp_all add: spinOnce_frame)
  from t ih Cons.prems show ?case by (auto split: prod.splits)
qed

lemma spin_never_finishes:
  "\<not> exploration_finished (fst (spin midPoint s0 pose0 param ins))
   \<and> \<not> ros_shutdown (fst (spin midPoint s0 pose0 param ins))
   \<and> filter is_cancel (concat (snd (snd (spin midPoint s0 pose0 param ins)))) = []"
proof -
  obtain gs evs0 where g: "select_goal_selector midPoint param = (gs, evs0)"
    by (cases "select_goal_selector midPoint param") auto
  have "\<not> exploration_finished (init_state gs s0)" "\<not> ros_shutdown (init_state gs s0)"
    by (simp_all add: init_state_def)
  from run_never_finishes [OF this, of pose0 ins] g show ?thesis
    by (auto simp: spin_def split: prod.splits)
qed


lemma foldl_spinOnce_frame:
  "first_time (foldl spinOnce st pre) = first_time st
   \<and> exploration_finished (foldl spinOnce st pre) = exploration_finished st
   \<and> ros_shutdown (foldl spinOnce st pre) = ros_shutdown st
   \<and> crashed (foldl spinOnce st pre) = crashed st
   \<and> goal_selector (foldl spinOnce st pre) = goal_selector st
   \<and> selector_state (foldl spinOnce st pre) = selector_state st"
  by (induction pre arbitrary: st) (simp_all add: spinOnce_frame)

lemma run_idle_prefix:
  assumes "\<not> exploration_finished st" and "\<not> ros_shutdown st" and "crashed st = None"
    and "\<forall>j\<in>set pre. \<not> (map_received j \<and> refresh_ok j)"
  shows "\<exists>evss. length evss = length pre
           \<and> snd (run pose0 st (pre @ rest)) = evss @ snd (run pose0 (foldl spinOnce st pre) rest)"
  using assms
proof (induction pre arbitrary: st)
  case Nil
  then show ?case by simp
next
  case (Cons j pre)
  have idle: "fst (tick pose0 st j) = st"
    using tick_idle [of j st pose0] Cons.prems by simp
  then obtain evs where t: "tick pose0 st j = (st, evs)"
    by (cases "tick pose0 st j") auto
  have "\<exists>evss. length evss = length pre
           \<and> snd (run pose0 (spinOnce st j) (pre @ rest))
               = evss @ snd (run pose0 (foldl spinOnce (spinOnce st j) pre) rest)"
    using Cons.prems by (intro Cons.IH) (simp_all add: spinOnce_frame)
  then obtain evss where e: "length evss = length pre"
      "snd (run pose0 (spinOnce st j) (pre @ rest))
         = evss @ snd (run pose0 (foldl spinOnce (spinOnce st j) pre) rest)"
    by blast
  have "snd (run pose0 st ((j # pre) @ rest))
      = evs # snd (run pose0 (spinOnce st j) (pre @ rest))"
    using Cons.prems t by (simp split: prod.splits)
  with e have "length (evs # evss) = length (j # pre)
      \<and> snd (run pose0 st ((j # pre) @ rest))
          = (evs # evss) @ snd (run pose0 (foldl spinOnce st (j # pre)) rest)"
    by simp
  then show ?case by blast
qed

lemma run_head:
  "\<not> ros_shutdown st \<Longrightarrow> crashed st = None \<Longrightarrow>
     \<exists>evss. snd (run pose0 st (i # post)) = snd (tick pose0 st i) # evss"
  by (auto split: prod.splits)

lemma run_bootstrap_iteration:
  assumes "\<not> exploration_finished st" and "\<not> ros_shutdown st" and "crashed st = None"
    and "\<forall>j\<in>set pre. \<not> (map_received j \<and> refresh_ok j)"
  shows "length pre < length (snd (run pose0 st (pre @ i # post)))
       \<and> snd (run pose0 st (pre @ i # post)) ! length pre
           = snd (tick pose0 (foldl spinOnce st pre) i)"
proof -
  from run_idle_prefix [OF assms, of pose0 "i # post"]
  obtain evss where e: "length evss = length pre"
      "snd (run pose0 st (pre @ i # post))
         = evss @ snd (run pose0 (foldl spinOnce st pre) (i # post))"
    by blast
  have "\<not> ros_shutdown (foldl spinOnce st pre)" "crashed (foldl spinOnce st pre) = None"
    using assms by (simp_all add: foldl_spinOnce_frame)
  from run_head [OF this, of pose0 i post]
  obtain rest where r: "snd (run pose0 (foldl spinOnce st pre) (i # post))
      = snd (tick pose0 (foldl spinOnce st pre) i) # rest"
    by blast
  from e r show ?thesis by (simp add: nth_append)
qed

lemma tick_bootstrap_first_call:
  "first_time st \<Longrightarrow> \<not> exploration_finished st \<Longrightarrow> map_received i \<Longrightarrow> refresh_ok i \<Longrightarrow>
   goal_selector st = Some sel \<Longrightarrow> fmap st = f # fs \<Longrightarrow>
     take 6 (snd (tick pose0 st i))
       = [EvSetMapReceived, EvRefreshPose, EvReplan, EvPrintStatus, EvDecideGoal, EvSelect f]"
  by (auto simp: tick_def decideGoal_def split: prod.splits sum.splits)

lemma tick_bootstrap_dispatch:
  "first_time st \<Longrightarrow> \<not> exploration_finished st \<Longrightarrow> map_received i \<Longrightarrow> refresh_ok i \<Longrightarrow>
   goal_selector st = Some sel \<Longrightarrow> fmap st = fpre @ f # fpost \<Longrightarrow>
   declines_all sel (selector_state st) pose0 fpre = Some (g1, s1) \<Longrightarrow>
   sel s1 f g1 = (True, g2, s2) \<Longrightarrow>
     snd (tick pose0 st i)
       = [EvSetMapReceived, EvRefreshPose, EvReplan, EvPrintStatus, EvDecideGoal]
         @ map EvSelect (fpre @ [f]) @ [EvPublishFrontier f, EvPublishGoal g2, EvGoTo g2]"
  using scan_first_accepted [of sel "selector_state st" pose0 fpre g1 s1 f g2 s2 fpost]
  by (simp add: tick_def decideGoal_def)

text \<open>
  C5. From a state in which \<open>first_time\<close> is still true, after any number of iterations
  without a map or with a failed pose refresh, the first iteration \<open>i\<close> with a map and a
  refreshed pose runs and enters \<open>decideGoal\<close>, whatever \<open>replaner.replan()\<close> answers.
  With a selector set and a frontier set \<open>f # fs\<close> (as last delivered by the callback),
  the selector is called on \<open>f\<close> right after. When the selector declines the frontiers
  \<open>fpre\<close> and accepts the next one, the iteration calls it on these frontiers in order,
  publishes, and sends the accepted pose with \<open>goTo\<close>.
\<close>

theorem bootstrap_scan:
  assumes "first_time st" and "\<not> exploration_finished st"
    and "\<not> ros_shutdown st" and "crashed st = None"
    and "\<forall>j\<in>set pre. \<not> (map_received j \<and> refresh_ok j)"
    and "map_received i" and "refresh_ok i"
  shows "length pre < length (snd (run pose0 st (pre @ i # post)))
       \<and> EvDecideGoal \<in> set (snd (run pose0 st (pre @ i # post)) ! length pre)
       \<and> (goal_selector st = Some sel \<and> fmap (foldl spinOnce st pre) = f # fs \<longrightarrow>
            take 6 (snd (run pose0 st (pre @ i # post)) ! length pre)
              = [EvSetMapReceived, EvRefreshPose, EvReplan, EvPrintStatus, EvDecideGoal,
                 EvSelect f])
       \<and> (goal_selector st = Some sel \<and> fmap (foldl spinOnce st pre) = fpre @ f' # fpost
            \<and> declines_all sel (selector_state st) pose0 fpre = Some (g1, s1)
            \<and> sel s1 f' g1 = (True, g2, s2) \<longrightarrow>
            snd (run pose0 st (pre @ i # post)) ! length pre
              = [EvSetMapReceived, EvRefreshPose, EvReplan, EvPrintStatus, EvDecideGoal]
                @ map EvSelect (fpre @ [f'])
                @ [EvPublishFrontier f', EvPublishGoal g2, EvGoTo g2])"
proof -
  let ?st = "foldl spinOnce st pre"
  have it: "length pre < length (snd (run pose0 st (pre @ i # post)))"
      "snd (run pose0 st (pre @ i # post)) ! length pre = snd (tick pose0 ?st i)"
    using run_bootstrap_iteration [OF assms(2) assms(3) assms(4) assms(5), of pose0 i post]
    by simp_all
  have ft: "first_time ?st" and nf: "\<not> exploration_finished ?st"
    using assms by (simp_all add: foldl_spinOnce_frame)
  have gs: "goal_selector ?st = goal_selector st" and ss: "selector_state ?st = selector_state st"
    by (simp_all add: foldl_spinOnce_frame)
  have a: "EvDecideGoal \<in> set (snd (tick pose0 ?st i))"
    using tick_scan_when_first [OF ft nf assms(6) assms(7)] .
  have b: "goal_selector st = Some sel \<and> fmap ?st = f # fs \<longrightarrow>
      take 6 (snd (tick pose0 ?st i))
        = [EvSetMapReceived, EvRefreshPose, EvReplan, EvPrintStatus, EvDecideGoal, EvSelect f]"
    using tick_bootstrap_first_call [OF ft nf assms(6) assms(7), of sel f fs pose0] gs by simp
  have c: "goal_selector st = Some sel \<and> fmap ?st = fpre @ f' # fpost
      \<and> declines_all sel (selector_state st) pose0 fpre = Some (g1, s1)
      \<and> sel s1 f' g1 = (True, g2, s2) \<longrightarrow>
      snd (tick pose0 ?st i)
        = [EvSetMapReceived, EvRefreshPose, EvReplan, EvPrintStatus, EvDecideGoal]
          @ map EvSelect (fpre @ [f']) @ [EvPublishFrontier f', EvPublishGoal g2, EvGoTo g2]"
    using tick_bootstrap_dispatch
            [OF ft nf assms(6) assms(7), of sel fpre f' fpost pose0 g1 s1 g2 s2] gs ss
    by simp
  from it a b c show ?thesis by simp
qed

theorem bootstrap_scan_witness:
  "first_time (init_state (Some accept_two) ())
   \<and> exploration_finished (init_state (Some accept_two) ()) = False
   \<and> ros_shutdown (init_state (Some accept_two) ()) = False
   \<and> crashed (init_state (Some accept_two) ()) = None
   \<and> map_received (waiting_tick\<lparr>map_update := Some [1, 2, 3]\<rparr>) = False
   \<and> refresh_ok pose_failed_tick = False
   \<and> map_received pose_ok_tick \<and> refresh_ok pose_ok_tick
   \<and> replan_verdict pose_ok_tick = False
   \<and> goal_selector (init_state (Some accept_two) ()) = Some accept_two
   \<and> fmap (foldl spinOnce (init_state (Some accept_two) ())
              [waiting_tick\<lparr>map_update := Some [1, 2, 3]\<rparr>, pose_failed_tick]) = [1] @ 2 # [3]
   \<and> declines_all accept_two (selector_state (init_state (Some accept_two) ())) 0 [1]
       = Some (0, ())
   \<and> accept_two () 2 0 = (True, 20, ())
   \<and> length [waiting_tick\<lparr>map_update := Some [1, 2, 3]\<rparr>, pose_failed_tick]
       < length (snd (run 0 (init_state (Some accept_two) ())
                   ([waiting_tick\<lparr>map_update := Some [1, 2, 3]\<rparr>, pose_failed_tick]
                    @ pose_ok_tick # [])))
   \<and> snd (run 0 (init_state (Some accept_two) ())
            ([waiting_tick\<lparr>map_update := Some [1, 2, 3]\<rparr>, pose_failed_tick]
             @ pose_ok_tick # []))
       ! length [waiting_tick\<lparr>map_update := Some [1, 2, 3]\<rparr>, pose_failed_tick]
       = [EvSetMapReceived, EvRefreshPose, EvReplan, EvPrintStatus, EvDecideGoal]
         @ map EvSelect ([1] @ [2]) @ [EvPublishFrontier 2, EvPublishGoal 20, EvGoTo 20]"
proof -
  let ?st = "init_state (Some accept_two) () :: (nat, nat, unit) loop_state"
  let ?pre = "[waiting_tick\<lparr>map_update := Some [1, 2, 3]\<rparr>, pose_failed_tick]"
  have h1: "first_time ?st" by (simp add: fixtures)
  have h2: "\<not> exploration_finished ?st" by (simp add: fixtures)
  have h3: "\<not> ros_shutdown ?st" by (simp add: fixtures)
  have h4: "crashed ?st = None" by (simp add: fixtures)
  have h5: "\<forall>j\<in>set ?pre. \<not> (map_received j \<and> refresh_ok j)" by (simp add: fixtures)
  have h6: "map_received pose_ok_tick" by (simp add: fixtures)
  have h7: "refresh_ok pose_ok_tick" by (simp add: fixtures)
  have h8: "replan_verdict pose_ok_tick = False" by (simp add: fixtures)
  have h9: "map_received (waiting_tick\<lparr>map_update := Some [1, 2, 3]\<rparr>) = False
      \<and> refresh_ok pose_failed_tick = False" by (simp add: fixtures)
  have s1: "goal_selector ?st = Some accept_two" by (simp add: fixtures)
  have s2: "fmap (foldl spinOnce ?st ?pre) = [1] @ 2 # [3]"
    by (simp add: spinOnce_def getFrontiers_def fixtures)
  have s3: "declines_all accept_two (selector_state ?st) 0 [1] = Some (0, ())"
    by (simp add: fixtures)
  have s4: "accept_two () 2 0 = (True, 20, ())" by (simp add: fixtures)
  note b = bootstrap_scan [OF h1 h2 h3 h4 h5 h6 h7,
      of 0 "[]" accept_two 1 "[2, 3]" "[1]" 2 "[3]" 0 "()" 20 "()"]
  from b h1 h2 h3 h4 h6 h7 h8 h9 s1 s2 s3 s4 show ?thesis by blast
qed

text \<open>
  C9. An iteration that clears \<open>first_time\<close> had a map and a refreshed pose and called
  \<open>decideGoal\<close>; and iterations that all lack a map or a refreshed pose, however many,
  leave \<open>first_time\<close> true.
\<close>

theorem first_time_cleared_only_by_scan:
  "(first_time st \<and> \<not> first_time (fst (tick pose0 st i))
      \<longrightarrow> map_received i \<and> refresh_ok i \<and> EvDecideGoal \<in> set (snd (tick pose0 st i)))
   \<and> (first_time st \<and> (\<forall>j\<in>set ins. \<not> (map_received j \<and> refresh_ok j))
      \<longrightarrow> first_time (fst (run pose0 st ins)))"
  using tick_first_time_cleared [of st pose0 i] run_first_time_kept [of ins pose0 st]
  by blast

theorem first_time_cleared_only_by_scan_witness:
  "first_time three_frontiers \<and> \<not> first_time (fst (tick 0 three_frontiers pose_ok_tick))
   \<and> map_received pose_ok_tick \<and> refresh_ok pose_ok_tick
   \<and> EvDecideGoal \<in> set (snd (tick 0 three_frontiers pose_ok_tick))
   \<and> map_received waiting_tick = False \<and> refresh_ok pose_failed_tick = False
   \<and> first_time (fst (run 0 three_frontiers [waiting_tick, pose_failed_tick, pose_failed_tick]))"
proof -
  have h1: "first_time three_frontiers" by (simp add: fixtures)
  have h2: "\<not> first_time (fst (tick 0 three_frontiers pose_ok_tick))"
    by (simp add: model_defs fixtures)
  have h3: "\<forall>j\<in>set [waiting_tick, pose_failed_tick, pose_failed_tick].
         \<not> (map_received j \<and> refresh_ok j)"
    by (simp add: fixtures)
  have h4: "map_received waiting_tick = False \<and> refresh_ok pose_failed_tick = False"
    by (simp add: fixtures)
  from first_time_cleared_only_by_scan
         [of three_frontiers 0 pose_ok_tick "[waiting_tick, pose_failed_tick, pose_failed_tick]"]
       h1 h2 h3 h4
  show ?thesis by simp
qed

text \<open>
  C10. When iteration \<open>j\<close> of a run calls \<open>goTo\<close> and a later iteration \<open>k\<close> calls it
  too, \<open>replaner.replan()\<close> answered true in iteration \<open>k\<close>.
\<close>

theorem later_dispatch_needs_replan:
  assumes "j < k" and "k < length (snd (run pose0 st ins))"
    and "filter is_goTo (snd (run pose0 st ins) ! j) \<noteq> []"
    and "filter is_goTo (snd (run pose0 st ins) ! k) \<noteq> []"
  shows "replan_verdict (ins ! k)"
  using assms
proof (induction ins arbitrary: st j k)
  case Nil
  then show ?case by simp
next
  case (Cons i ins)
  obtain st1 evs where t: "tick pose0 st i = (st1, evs)" by (cases "tick pose0 st i") auto
  from Cons.prems(2) have alive: "\<not> ros_shutdown st" "crashed st = None"
    by (auto split: if_splits)
  from Cons.prems(1) obtain k' where k: "k = Suc k'" by (cases k) auto
  with Cons.prems alive t have nc: "crashed st1 = None"
    by (auto split: if_splits prod.splits)
  obtain st2 evss where r: "run pose0 (spinOnce st1 i) ins = (st2, evss)"
    by (cases "run pose0 (spinOnce st1 i) ins") auto
  from alive t nc r have e: "snd (run pose0 st (i # ins)) = evs # evss" by simp
  have len: "k' < length (snd (run pose0 (spinOnce st1 i) ins))"
    using Cons.prems(2) e r k by simp
  have gk: "filter is_goTo (snd (run pose0 (spinOnce st1 i) ins) ! k') \<noteq> []"
    using Cons.prems(4) e r k by simp
  have "replan_verdict (ins ! k')"
  proof (cases j)
    case 0
    with Cons.prems(3) e have "filter is_goTo evs \<noteq> []" by simp
    with tick_goTo_needs_verdict [of pose0 st i] t have "\<not> first_time st1" by simp
    then have "\<not> first_time (spinOnce st1 i)" by (simp add: spinOnce_frame)
    from run_after_bootstrap [OF this len gk] show ?thesis .
  next
    case (Suc j')
    show ?thesis
    proof (rule Cons.IH [of j' k' "spinOnce st1 i"])
      show "j' < k'" using Cons.prems(1) Suc k by simp
      show "k' < length (snd (run pose0 (spinOnce st1 i) ins))" by (rule len)
      show "filter is_goTo (snd (run pose0 (spinOnce st1 i) ins) ! j') \<noteq> []"
        using Cons.prems(3) e r Suc by simp
      show "filter is_goTo (snd (run pose0 (spinOnce st1 i) ins) ! k') \<noteq> []" by (rule gk)
    qed
  qed
  with k show ?case by simp
qed

theorem later_dispatch_needs_replan_witness:
  "(1::nat) < 2
   \<and> 2 < length (snd (run 0 three_frontiers [waiting_tick, pose_ok_tick, replan_tick]))
   \<and> filter is_goTo (snd (run 0 three_frontiers [waiting_tick, pose_ok_tick, replan_tick]) ! 1) \<noteq> []
   \<and> filter is_goTo (snd (run 0 three_frontiers [waiting_tick, pose_ok_tick, replan_tick]) ! 2) \<noteq> []
   \<and> replan_verdict ([waiting_tick, pose_ok_tick, replan_tick] ! 2)"
proof -
  have r: "snd (run 0 three_frontiers [waiting_tick, pose_ok_tick, replan_tick])
     = [[],
        [EvSetMapReceived, EvRefreshPose, EvReplan, EvPrintStatus, EvDecideGoal, EvSelect 1,
         EvSelect 2, EvPublishFrontier 2, EvPublishGoal 20, EvGoTo 20],
        [EvSetMapReceived, EvRefreshPose, EvReplan, EvPrintStatus, EvDecideGoal, EvSelect 1,
         EvSelect 2, EvPublishFrontier 2, EvPublishGoal 20, EvGoTo 20]]"
    by (simp add: model_defs fixtures)
  have h1: "(1::nat) < 2" by simp
  have h2: "2 < length (snd (run 0 three_frontiers [waiting_tick, pose_ok_tick, replan_tick]))"
    unfolding r by simp
  have h3: "filter is_goTo (snd (run 0 three_frontiers [waiting_tick, pose_ok_tick, replan_tick]) ! 1) \<noteq> []"
    unfolding r by simp
  have h4: "filter is_goTo (snd (run 0 three_frontiers [waiting_tick, pose_ok_tick, replan_tick]) ! 2) \<noteq> []"
    unfolding r by simp
  from later_dispatch_needs_replan [OF h1 h2 h3 h4] h1 h2 h3 h4 show ?thesis by blast
qed

end
